theory Spec2Isabelle
  imports Complex_Main "HOL-Library.Sublist" "HOL-Library.Char_ord" "HOL-Library.List_Lexorder"
begin

section \<open>Strings\<close>

text \<open>
  Python text is modelled as \<^typ>\<open>string\<close>. A character is a Unicode code point below
  256, \<open>codepoint\<close> giving its number; text with a code point from 256 on is outside the
  type. On these characters the functions below are Python's: \<open>str.lower\<close> maps \<open>A-Z\<close>
  to \<open>a-z\<close> and the capital letters \<open>0xC0-0xDE\<close> (not the sign \<open>0xD7\<close>) to the letters
  \<open>0x20\<close> above them; \<open>str.strip\<close> removes the characters that \<open>str.isspace\<close> accepts,
  among them \<open>0x85\<close> and \<open>0xA0\<close>; a word character of a \<open>str\<close> pattern is an
  underscore or a character that \<open>str.isalnum\<close> accepts, among them the letters and
  digits of the upper half.
\<close>

definition codepoint :: "char \<Rightarrow> nat" where
  "codepoint c = of_char c"

definition ascii_uppercase :: string where
  "ascii_uppercase = ''ABCDEFGHIJKLMNOPQRSTUVWXYZ''"

definition ascii_lowercase :: string where
  "ascii_lowercase = ''abcdefghijklmnopqrstuvwxyz''"

definition ascii_digits :: string where
  "ascii_digits = ''0123456789''"

definition lower_char :: "char \<Rightarrow> char" where
  "lower_char c =
     (case map_of (zip ascii_uppercase ascii_lowercase) c of
        Some d \<Rightarrow> d
      | None \<Rightarrow>
          (let n = codepoint c
           in if 0xC0 \<le> n \<and> n \<le> 0xDE \<and> n \<noteq> 0xD7 then char_of (n + 0x20) else c))"

definition lower :: "string \<Rightarrow> string" where
  "lower s = map lower_char s"

definition is_space :: "char \<Rightarrow> bool" where
  "is_space c = (c \<in> set [CHR '' '', CHR 0x09, CHR 0x0A, CHR 0x0B, CHR 0x0C, CHR 0x0D,
                            CHR 0x1C, CHR 0x1D, CHR 0x1E, CHR 0x1F, CHR 0x85, CHR 0xA0])"

definition strip :: "string \<Rightarrow> string" where
  "strip s = rev (dropWhile is_space (rev (dropWhile is_space s)))"

text \<open>\<open>sep.join(xs)\<close>.\<close>

fun join :: "string \<Rightarrow> string list \<Rightarrow> string" where
  "join sep [] = []"
| "join sep [x] = x"
| "join sep (x # y # ys) = x @ sep @ join sep (y # ys)"

definition newline :: string where
  "newline = [CHR 0x0A]"

section \<open>The tokenizer: \<open>re.findall(r'\b[a-zA-Z0-9+#\.\-]+\b', text.lower())\<close>\<close>

text \<open>
  The regular expression is run the way the \<open>re\<close> engine runs it. \<open>\b\<close> holds at index
  \<open>i\<close> when exactly one of the characters before and after \<open>i\<close> is a word character
  (\<open>\w\<close>: letters, digits, underscore; for a \<open>str\<close> pattern the letters and digits of
  Unicode, not of ASCII only), the ends of the string counting as non-word. The class
  of the pattern itself is spelled out and stays ASCII. The
  class \<open>[...]+\<close> is greedy: it first takes the whole run of class characters from the
  start position and gives characters back one at a time until the closing \<open>\b\<close> holds.
  \<open>findall\<close> scans left to right, resumes after each match, and moves on by one
  character where no match starts.
\<close>

text \<open>
  The characters from \<open>0x80\<close> to \<open>0xFF\<close> that \<open>str.isalnum\<close> accepts: the ordinal
  indicators, the micro sign, the superscript digits, the three fractions, and every
  letter from \<open>0xC0\<close> on, which leaves out the signs \<open>0xD7\<close> and \<open>0xF7\<close>.
\<close>

definition latin1_alnum :: "char \<Rightarrow> bool" where
  "latin1_alnum c =
     (let n = codepoint c
      in n \<in> set [0xAA, 0xB2, 0xB3, 0xB5, 0xB9, 0xBA, 0xBC, 0xBD, 0xBE]
         \<or> (0xC0 \<le> n \<and> n \<noteq> 0xD7 \<and> n \<noteq> 0xF7))"

definition is_word_char :: "char \<Rightarrow> bool" where
  "is_word_char c =
     (c \<in> set (ascii_lowercase @ ascii_uppercase @ ascii_digits @ ''_'') \<or> latin1_alnum c)"

definition in_token_class :: "char \<Rightarrow> bool" where
  "in_token_class c = (c \<in> set (ascii_lowercase @ ascii_uppercase @ ascii_digits @ ''+#.-''))"

definition word_boundary :: "string \<Rightarrow> nat \<Rightarrow> bool" where
  "word_boundary s i =
     ((0 < i \<and> i \<le> length s \<and> is_word_char (s ! (i - 1)))
        \<noteq> (i < length s \<and> is_word_char (s ! i)))"

fun greedy_class_end :: "string \<Rightarrow> nat \<Rightarrow> nat \<Rightarrow> nat option" where
  "greedy_class_end s p 0 = None"
| "greedy_class_end s p (Suc n) =
     (if word_boundary s (p + Suc n) then Some (p + Suc n) else greedy_class_end s p n)"

definition match_at :: "string \<Rightarrow> nat \<Rightarrow> nat option" where
  "match_at s p =
     (if word_boundary s p
      then greedy_class_end s p (length (takeWhile in_token_class (drop p s)))
      else None)"

function findall_spans :: "string \<Rightarrow> nat \<Rightarrow> (nat \<times> nat) list" where
  "findall_spans s p =
     (if length s < p then []
      else case match_at s p of
             Some e \<Rightarrow> (p, e) # findall_spans s e
           | None \<Rightarrow> findall_spans s (Suc p))"
  by pat_completeness auto
termination
proof (relation "measure (\<lambda>(s, p). Suc (length s) - p)")
  show "wf (measure (\<lambda>(s, p). Suc (length s) - p))" by simp
next
  fix s p assume "\<not> length s < p" "match_at s p = None"
  then show "((s, Suc p), s, p) \<in> measure (\<lambda>(s, p). Suc (length s) - p)" by simp
next
  fix s p e assume a: "\<not> length s < p" "match_at s p = Some e"
  have "greedy_class_end s p n = Some e \<Longrightarrow> p < e" for n
    by (induction n) (auto split: if_splits)
  with a have "p < e"
    by (auto simp: match_at_def split: if_splits)
  with a show "((s, e), s, p) \<in> measure (\<lambda>(s, p). Suc (length s) - p)" by simp
qed

declare findall_spans.simps [simp del]

definition slice :: "string \<Rightarrow> nat \<Rightarrow> nat \<Rightarrow> string" where
  "slice s i j = take (j - i) (drop i s)"

definition findall :: "string \<Rightarrow> string list" where
  "findall s = map (\<lambda>(i, j). slice s i j) (findall_spans s 0)"

definition normalize_tokens :: "string \<Rightarrow> string list" where
  "normalize_tokens text = (if text = [] then [] else findall (lower text))"

text \<open>
  The reading of the tokenizer's description that the theorems below compare the scanner
  with: a bounded run is a non-empty stretch \<open>[i, j)\<close> of class characters with a word
  boundary at both ends, and a token is a bounded run that no other bounded run contains.
\<close>

definition bounded_run :: "string \<Rightarrow> nat \<Rightarrow> nat \<Rightarrow> bool" where
  "bounded_run s i j =
     (i < j \<and> j \<le> length s \<and> (\<forall>k \<in> {i..<j}. in_token_class (s ! k))
      \<and> word_boundary s i \<and> word_boundary s j)"

definition maximal_bounded_run :: "string \<Rightarrow> nat \<Rightarrow> nat \<Rightarrow> bool" where
  "maximal_bounded_run s i j =
     (bounded_run s i j
      \<and> (\<forall>i' \<in> {..i}. \<forall>j' \<in> {j..length s}. bounded_run s i' j' \<longrightarrow> i' = i \<and> j' = j))"

definition spans_in_order :: "(nat \<times> nat) list \<Rightarrow> bool" where
  "spans_in_order sp = sorted_wrt (\<lambda>(a, b) (c, d). b \<le> c) sp"

section \<open>Keyword matching and the score: \<open>compute_ats_score\<close>\<close>

text \<open>
  \<open>rapidfuzz\<close> is an optional import. \<open>None\<close> stands for the module being absent
  (\<open>_HAS_RAPIDFUZZ\<close> false); otherwise the value is \<open>fuzz.partial_ratio\<close>, whose result is
  \<open>None\<close> when the call raises and the ratio otherwise.
\<close>

type_synonym fuzz = "(string \<Rightarrow> string \<Rightarrow> real option) option"

definition matched_flag :: "fuzz \<Rightarrow> real \<Rightarrow> string list \<Rightarrow> string \<Rightarrow> string \<Rightarrow> bool" where
  "matched_flag fz fuzzy_threshold resume_tokens rt k =
     (if k \<in> set resume_tokens then True
      else if sublist k rt then True
      else (case fz of
              None \<Rightarrow> False
            | Some partial_ratio \<Rightarrow>
                (case partial_ratio k rt of
                   None \<Rightarrow> False
                 | Some score \<Rightarrow> (if fuzzy_threshold \<le> score then True else False))))"

text \<open>The branch of the \<open>if/elif\<close> chain that decides a keyword.\<close>

datatype tier = Exact | Substring | Fuzzy | NoMatch

definition match_tier :: "fuzz \<Rightarrow> real \<Rightarrow> string list \<Rightarrow> string \<Rightarrow> string \<Rightarrow> tier" where
  "match_tier fz fuzzy_threshold resume_tokens rt k =
     (if k \<in> set resume_tokens then Exact
      else if sublist k rt then Substring
      else (case fz of
              None \<Rightarrow> NoMatch
            | Some partial_ratio \<Rightarrow>
                (case partial_ratio k rt of
                   None \<Rightarrow> NoMatch
                 | Some score \<Rightarrow> (if fuzzy_threshold \<le> score then Fuzzy else NoMatch))))"

text \<open>The \<open>for kw in job_keywords\<close> loop, with the two result lists as accumulators.\<close>

fun ats_loop ::
  "fuzz \<Rightarrow> real \<Rightarrow> string list \<Rightarrow> string \<Rightarrow> string list \<Rightarrow> string list \<Rightarrow> string list
     \<Rightarrow> string list \<times> string list" where
  "ats_loop fz th resume_tokens rt [] matched missing = (matched, missing)"
| "ats_loop fz th resume_tokens rt (kw # kws) matched missing =
     (if kw = [] then ats_loop fz th resume_tokens rt kws matched missing
      else let k = lower (strip kw) in
        if matched_flag fz th resume_tokens rt k
        then ats_loop fz th resume_tokens rt kws (matched @ [kw]) missing
        else ats_loop fz th resume_tokens rt kws matched (missing @ [kw]))"

text \<open>
  The score is computed in binary floating point. A finite double is the rational number
  it stands for, and every operation returns the double nearest to the exact result, a
  tie going to the even significand (IEEE 754 binary64: 53 significant bits, least
  exponent \<open>-1022\<close>). The values of this computation lie between 0 and 100, so overflow is
  not modelled.
\<close>

function bit_length :: "int \<Rightarrow> int" where
  "bit_length a = (if a \<le> 0 then 0 else 1 + bit_length (a div 2))"
  by pat_completeness auto
termination
  by (relation "measure nat") auto

declare bit_length.simps [simp del]

definition pow2 :: "int \<Rightarrow> rat" where
  "pow2 e = (if 0 \<le> e then 2 ^ nat e else 1 / 2 ^ nat (- e))"

definition round_half_even :: "rat \<Rightarrow> int" where
  "round_half_even x =
     (let f = \<lfloor>x\<rfloor>; d = x - of_int f
      in if d < 1 / 2 then f else if 1 / 2 < d then f + 1 else if even f then f else f + 1)"

text \<open>The exponent \<open>e\<close> of a positive \<open>x\<close>: \<open>2 ^ e \<le> x < 2 ^ (e + 1)\<close>.\<close>

definition floor_log2 :: "rat \<Rightarrow> int" where
  "floor_log2 x =
     (let (a, b) = quotient_of x;
          d = bit_length a - bit_length b
      in if pow2 d \<le> x then d else d - 1)"

definition nearest_double :: "rat \<Rightarrow> rat" where
  "nearest_double x =
     (if x = 0 then 0
      else let e = max (floor_log2 \<bar>x\<bar>) (- 1022);
               ulp = pow2 (e - 52);
               r = of_int (round_half_even (\<bar>x\<bar> / ulp)) * ulp
           in if 0 < x then r else - r)"

text \<open>\<open>len(matched) / total\<close>: true division of two integers.\<close>

definition float_div :: "nat \<Rightarrow> nat \<Rightarrow> rat" where
  "float_div m n = nearest_double (of_nat m / of_nat n)"

definition float_mul :: "rat \<Rightarrow> rat \<Rightarrow> rat" where
  "float_mul x y = nearest_double (x * y)"

text \<open>
  \<open>round(x, 1)\<close> of a double: the decimal with one digit that is nearest to the exact
  value of \<open>x\<close>, a tie going to the even digit, read back as a double.
\<close>

definition py_round1 :: "rat \<Rightarrow> rat" where
  "py_round1 x = nearest_double (of_int (round_half_even (x * 10)) / 10)"

definition compute_ats_score ::
  "fuzz \<Rightarrow> string list \<Rightarrow> string \<Rightarrow> real \<Rightarrow> rat \<times> string list \<times> string list" where
  "compute_ats_score fz job_keywords resume_text fuzzy_threshold =
     (let resume_tokens = normalize_tokens resume_text;
          rt = join '' '' resume_tokens;
          (matched, missing) = ats_loop fz fuzzy_threshold resume_tokens rt job_keywords [] [];
          total = (if job_keywords \<noteq> [] then length job_keywords else 1);
          score_percent = py_round1 (float_mul 100 (float_div (length matched) total))
      in (score_percent, matched, missing))"

definition default_fuzzy_threshold :: real where
  "default_fuzzy_threshold = 80"

text \<open>What the description of the score says about the denominator and the keyword set.\<close>

definition spec_total :: "string list \<Rightarrow> nat" where
  "spec_total K = (let n = length (filter (\<lambda>kw. strip kw \<noteq> []) K) in if n = 0 then 1 else n)"

definition nonempty_trimmed :: "string list \<Rightarrow> string set" where
  "nonempty_trimmed K = set (filter (\<lambda>k. k \<noteq> []) (map strip K))"

section \<open>Structured resumes: \<open>resume_json_to_text\<close>\<close>

text \<open>
  The resume builder stores a JSON object whose sections have fixed shapes: \<open>personal\<close> and
  every education, experience and project entry are objects with string values, \<open>skills\<close>
  is a list of strings, \<open>summary\<close> and \<open>achievements\<close> are strings. A key that is absent is
  \<open>None\<close>; \<open>d.get(key, default)\<close> is \<open>get_or\<close>.
\<close>

type_synonym entry = "string \<rightharpoonup> string"

record resume_json =
  personal :: "entry option"
  summary :: "string option"
  education :: "entry list option"
  experience :: "entry list option"
  projects :: "entry list option"
  skills :: "string list option"
  achievements :: "string option"

definition get_or :: "'a option \<Rightarrow> 'a \<Rightarrow> 'a" where
  "get_or v dflt = (case v of Some x \<Rightarrow> x | None \<Rightarrow> dflt)"

text \<open>\<open>for e in entries: parts.append(' '.join(e.get(k, '') for k in keys))\<close>\<close>

fun append_entries :: "string list \<Rightarrow> entry list \<Rightarrow> string list \<Rightarrow> string list" where
  "append_entries keys [] parts = parts"
| "append_entries keys (e # es) parts =
     append_entries keys es (parts @ [join '' '' (map (\<lambda>k. get_or (e k) []) keys)])"

definition resume_json_to_text :: "resume_json \<Rightarrow> string" where
  "resume_json_to_text resume =
     (let pers = get_or (personal resume) Map.empty;
          parts1 = [] @ [get_or (pers ''full_name'') []];
          parts2 = parts1 @ [get_or (pers ''headline'') []];
          parts3 = parts2 @ [get_or (pers ''location'') []];
          parts4 = parts3 @ [get_or (summary resume) []];
          parts5 = append_entries [''school'', ''degree'', ''details'', ''duration'']
                     (get_or (education resume) []) parts4;
          parts6 = append_entries [''title'', ''company'', ''description'', ''duration'']
                     (get_or (experience resume) []) parts5;
          parts7 = append_entries [''title'', ''tech'', ''description'', ''duration'']
                     (get_or (projects resume) []) parts6;
          parts8 = parts7 @ [join '' '' (get_or (skills resume) [])];
          parts9 = parts8 @ [get_or (achievements resume) []]
      in join newline (filter (\<lambda>p. p \<noteq> []) parts9))"

text \<open>The order of the parts as the description of the extractor lists them.\<close>

definition entry_line :: "string list \<Rightarrow> entry \<Rightarrow> string" where
  "entry_line keys e = join '' '' (map (\<lambda>k. get_or (e k) []) keys)"

definition spec_resume_parts :: "resume_json \<Rightarrow> string list" where
  "spec_resume_parts resume =
     [get_or (get_or (personal resume) Map.empty ''full_name'') [],
      get_or (get_or (personal resume) Map.empty ''headline'') [],
      get_or (get_or (personal resume) Map.empty ''location'') [],
      get_or (summary resume) []]
     @ map (entry_line [''school'', ''degree'', ''details'', ''duration''])
         (get_or (education resume) [])
     @ map (entry_line [''title'', ''company'', ''description'', ''duration''])
         (get_or (experience resume) [])
     @ map (entry_line [''title'', ''tech'', ''description'', ''duration''])
         (get_or (projects resume) [])
     @ [join '' '' (get_or (skills resume) []), get_or (achievements resume) []]"

section \<open>Uploaded files: \<open>extract_text\<close> and \<open>extract_text_from_docx\<close>\<close>

text \<open>
  An upload is a stream with a read position; \<open>read()\<close> and \<open>seek()\<close> raise on a stream
  that does not support them. The temporary directory is a list of files under abstract
  paths, and writing or unlinking can fail. Every raise of the source is a value \<open>Inl e\<close>.
\<close>

datatype exn = OSError | ParserError

record upload =
  upload_name :: "string option"
  upload_data :: string
  upload_pos :: nat
  upload_readable :: bool
  upload_seekable :: bool

definition upload_read :: "upload \<Rightarrow> (exn + string) \<times> upload" where
  "upload_read f =
     (if upload_readable f
      then (Inr (drop (upload_pos f) (upload_data f)),
            f\<lparr>upload_pos := max (upload_pos f) (length (upload_data f))\<rparr>)
      else (Inl OSError, f))"

definition upload_seek :: "nat \<Rightarrow> upload \<Rightarrow> (exn + unit) \<times> upload" where
  "upload_seek n f =
     (if upload_seekable f then (Inr (), f\<lparr>upload_pos := n\<rparr>) else (Inl OSError, f))"

text \<open>\<open>try: file_field.seek(0) except Exception: pass\<close>\<close>

definition seek_quietly :: "upload \<Rightarrow> upload" where
  "seek_quietly f = snd (upload_seek 0 f)"

type_synonym path = nat

record filesystem =
  fs_files :: "(path \<times> string) list"
  fs_write_fails :: bool
  fs_unlink_denied :: bool

definition fresh_path :: "filesystem \<Rightarrow> path" where
  "fresh_path fs = Suc (fold max (map fst (fs_files fs)) 0)"

text \<open>\<open>tempfile.NamedTemporaryFile(delete=False, suffix=...)\<close>: a new empty file.\<close>

definition named_temporary_file :: "filesystem \<Rightarrow> path \<times> filesystem" where
  "named_temporary_file fs =
     (let p = fresh_path fs in (p, fs\<lparr>fs_files := (p, []) # fs_files fs\<rparr>))"

text \<open>\<open>tmp.write(data); tmp.flush(); tmp.close()\<close>\<close>

definition file_write :: "path \<Rightarrow> string \<Rightarrow> filesystem \<Rightarrow> (exn + unit) \<times> filesystem" where
  "file_write p data fs =
     (if fs_write_fails fs then (Inl OSError, fs)
      else (Inr (),
            fs\<lparr>fs_files := map (\<lambda>(q, c). if q = p then (q, c @ data) else (q, c)) (fs_files fs)\<rparr>))"

definition os_unlink :: "path \<Rightarrow> filesystem \<Rightarrow> (exn + unit) \<times> filesystem" where
  "os_unlink p fs =
     (if fs_unlink_denied fs \<or> p \<notin> fst ` set (fs_files fs) then (Inl OSError, fs)
      else (Inr (), fs\<lparr>fs_files := filter (\<lambda>(q, c). q \<noteq> p) (fs_files fs)\<rparr>))"

text \<open>\<open>try: os.unlink(path) except Exception: pass\<close>\<close>

definition unlink_quietly :: "path \<Rightarrow> filesystem \<Rightarrow> filesystem" where
  "unlink_quietly p fs = snd (os_unlink p fs)"

text \<open>
  The optional parser imports. \<open>None\<close> is a module that failed to import. A parser is
  given the bytes of the file at the path it is called with; it raises or returns the
  text (pdfminer) or the paragraph texts \<open>p.text\<close> in document order (python-docx).
\<close>

record libs =
  pdf_extract_text :: "(string \<Rightarrow> exn + string) option"
  docx_paragraphs :: "(string \<Rightarrow> exn + string list) option"

text \<open>Lines 42 to 47 of \<open>extract_text_from_docx\<close>, once the path is known.\<close>

definition docx_parse :: "libs \<Rightarrow> path \<Rightarrow> filesystem \<Rightarrow> exn + string" where
  "docx_parse L p fs =
     (case docx_paragraphs L of
        None \<Rightarrow> Inr []
      | Some document \<Rightarrow>
          (case map_of (fs_files fs) p of
             None \<Rightarrow> Inl OSError
           | Some bytes \<Rightarrow>
               (case document bytes of
                  Inl e \<Rightarrow> Inl e
                | Inr paragraphs \<Rightarrow> Inr (join newline (filter (\<lambda>t. t \<noteq> []) paragraphs)))))"

datatype docx_source = Path path | FileObj upload

definition extract_text_from_docx ::
  "libs \<Rightarrow> docx_source \<Rightarrow> filesystem \<Rightarrow> (exn + string) \<times> docx_source \<times> filesystem" where
  "extract_text_from_docx L src fs =
     (let (result, src1, fs1, tmp_created, path) =
            (case src of
               FileObj f \<Rightarrow>
                 (let (p, fs0) = named_temporary_file fs in
                  case upload_read f of
                    (Inl e, f1) \<Rightarrow> (Inl e, FileObj f1, fs0, False, None)
                  | (Inr data, f1) \<Rightarrow>
                      (case file_write p data fs0 of
                         (Inl e, fs') \<Rightarrow> (Inl e, FileObj f1, fs', False, None)
                       | (Inr u, fs') \<Rightarrow> (docx_parse L p fs', FileObj f1, fs', True, Some p)))
             | Path p \<Rightarrow> (docx_parse L p fs, src, fs, False, Some p));
          fs2 = (case path of
                   Some p \<Rightarrow> if tmp_created then unlink_quietly p fs1 else fs1
                 | None \<Rightarrow> fs1)
      in (result, src1, fs2))"

definition extract_text ::
  "libs \<Rightarrow> upload \<Rightarrow> filesystem \<Rightarrow> (exn + string) \<times> upload \<times> filesystem" where
  "extract_text L file_field fs =
     (let nm = lower (get_or (upload_name file_field) []);
          sfx = (if suffix ''.pdf'' nm then ''.pdf'' else ''.docx'');
          (result, f1, fs1, tmp_name) =
            (case upload_read file_field of
               (Inl e, f') \<Rightarrow> (Inl e, f', fs, None)
             | (Inr data, f') \<Rightarrow>
                 (let (p, fs0) = named_temporary_file fs in
                  case file_write p data fs0 of
                    (Inl e, fs') \<Rightarrow> (Inl e, f', fs', None)
                  | (Inr u, fs') \<Rightarrow>
                      (case (sfx = ''.pdf'', pdf_extract_text L) of
                         (True, Some extract_text_from_pdf) \<Rightarrow>
                           ((case map_of (fs_files fs') p of
                               None \<Rightarrow> Inr []
                             | Some bytes \<Rightarrow>
                                 (case extract_text_from_pdf bytes of
                                    Inl e \<Rightarrow> Inr []
                                  | Inr t \<Rightarrow> Inr t)),
                            f', fs', Some p)
                       | _ \<Rightarrow>
                           (let (r, src', fs'') = extract_text_from_docx L (Path p) fs'
                            in (r, f', fs'', Some p)))));
          fs2 = (case tmp_name of Some p \<Rightarrow> unlink_quietly p fs1 | None \<Rightarrow> fs1);
          f2 = seek_quietly f1
      in (result, f2, fs2))"

section \<open>The application view: resume text, keyword fallback, scoring call\<close>

record job =
  job_required_skills :: "string list option"
  job_description :: string

definition derive_job_keywords :: "job \<Rightarrow> string list" where
  "derive_job_keywords j =
     (let job_keywords = get_or (job_required_skills j) []
      in if job_keywords = []
         then (let tokens = findall (lower (job_description j))
               in take 40 (sorted_list_of_set (set (filter (\<lambda>t. 2 < length t) tokens))))
         else job_keywords)"

text \<open>
  \<open>SavedResume None\<close> is \<open>Resume.DoesNotExist\<close>. The form check before this point leaves
  exactly one of the two choices.
\<close>

datatype resume_choice = SavedResume "resume_json option" | UploadedFile upload

definition apply_resume_text ::
  "libs \<Rightarrow> resume_choice \<Rightarrow> filesystem \<Rightarrow> string \<times> resume_choice \<times> filesystem" where
  "apply_resume_text L choice fs =
     (case choice of
        SavedResume None \<Rightarrow> ([], choice, fs)
      | SavedResume (Some data) \<Rightarrow> (resume_json_to_text data, choice, fs)
      | UploadedFile uploaded_file \<Rightarrow>
          (let (r, f1, fs1) = extract_text L uploaded_file fs;
               resume_text = (case r of Inl e \<Rightarrow> [] | Inr t \<Rightarrow> t);
               f2 = seek_quietly f1
           in (resume_text, UploadedFile f2, fs1)))"

definition apply_score ::
  "fuzz \<Rightarrow> libs \<Rightarrow> job \<Rightarrow> resume_choice \<Rightarrow> filesystem
     \<Rightarrow> (rat \<times> string list \<times> string list) \<times> resume_choice \<times> filesystem" where
  "apply_score fz L j choice fs =
     (let (resume_text, choice', fs') = apply_resume_text L choice fs;
          job_keywords = derive_job_keywords j
      in (compute_ats_score fz job_keywords resume_text default_fuzzy_threshold, choice', fs'))"

section \<open>The tokenizer is the list of maximal bounded runs\<close>

lemma greedy_class_end_Some:
  "greedy_class_end s p n = Some e \<Longrightarrow>
     p < e \<and> e \<le> p + n \<and> word_boundary s e \<and> (\<forall>e'. e < e' \<and> e' \<le> p + n \<longrightarrow> \<not> word_boundary s e')"
proof (induction n)
  case 0
  then show ?case by simp
next
  case (Suc n)
  show ?case
  proof (cases "word_boundary s (p + Suc n)")
    case True
    with Suc.prems show ?thesis by auto
  next
    case False
    with Suc.prems have "greedy_class_end s p n = Some e" by simp
    from Suc.IH[OF this] False show ?thesis
      by (auto simp: le_Suc_eq)
  qed
qed

lemma greedy_class_end_None:
  "greedy_class_end s p n = None \<Longrightarrow> p < e' \<Longrightarrow> e' \<le> p + n \<Longrightarrow> \<not> word_boundary s e'"
  by (induction n) (auto simp: le_Suc_eq split: if_splits)

lemma class_run_nth:
  assumes "k < length (takeWhile in_token_class (drop p s))"
  shows "in_token_class (s ! (p + k))"
proof -
  let ?t = "takeWhile in_token_class (drop p s)"
  have "?t ! k \<in> set ?t" using assms by simp
  then have "in_token_class (?t ! k)" by (rule set_takeWhileD[THEN conjunct2])
  moreover have "?t ! k = drop p s ! k" using assms by (rule takeWhile_nth)
  moreover have "k < length (drop p s)"
    using assms length_takeWhile_le[of in_token_class "drop p s"] by linarith
  then have "drop p s ! k = s ! (p + k)" by simp
  ultimately show ?thesis by simp
qed

lemma class_run_le:
  assumes "\<forall>k \<in> {p..<j}. in_token_class (s ! k)" "p \<le> j" "j \<le> length s"
  shows "j \<le> p + length (takeWhile in_token_class (drop p s))"
proof -
  have "j - p \<le> length (takeWhile in_token_class (drop p s))"
  proof (rule length_takeWhile_less_P_nth)
    fix i assume "i < j - p"
    with assms show "in_token_class (drop p s ! i)" by simp
  next
    show "j - p \<le> length (drop p s)" using assms by simp
  qed
  with assms show ?thesis by simp
qed

lemma match_at_Some:
  assumes "match_at s p = Some e"
  shows "bounded_run s p e"
    and "\<And>j. \<forall>k \<in> {p..<j}. in_token_class (s ! k) \<Longrightarrow> word_boundary s j \<Longrightarrow> j \<le> length s \<Longrightarrow> j \<le> e"
proof -
  let ?n = "length (takeWhile in_token_class (drop p s))"
  from assms have wb: "word_boundary s p" and g: "greedy_class_end s p ?n = Some e"
    by (auto simp: match_at_def split: if_splits)
  note G = greedy_class_end_Some[OF g]
  have "?n \<le> length (drop p s)" by (rule length_takeWhile_le)
  moreover from G have "0 < ?n" by linarith
  ultimately have "p + ?n \<le> length s" by (cases "p < length s") auto
  have cls: "in_token_class (s ! k)" if "k \<in> {p..<e}" for k
  proof -
    from that G have "k - p < ?n" by auto
    from class_run_nth[OF this] that show ?thesis by simp
  qed
  show "bounded_run s p e"
    using G wb cls \<open>p + ?n \<le> length s\<close> by (simp add: bounded_run_def)
  fix j assume a: "\<forall>k \<in> {p..<j}. in_token_class (s ! k)" "word_boundary s j" "j \<le> length s"
  show "j \<le> e"
  proof (cases "p \<le> j")
    case True
    from class_run_le[OF a(1) True a(3)] have "j \<le> p + ?n" .
    with G a(2) show ?thesis by (meson not_le_imp_less)
  next
    case False
    with G show ?thesis by simp
  qed
qed

lemma match_at_None:
  assumes "match_at s p = None"
  shows "\<not> bounded_run s p j"
proof
  assume b: "bounded_run s p j"
  let ?n = "length (takeWhile in_token_class (drop p s))"
  from b have "word_boundary s p" by (simp add: bounded_run_def)
  with assms have g: "greedy_class_end s p ?n = None" by (simp add: match_at_def)
  from b have "j \<le> p + ?n"
    by (intro class_run_le) (auto simp: bounded_run_def)
  from greedy_class_end_None[OF g _ this] b show False
    by (simp add: bounded_run_def)
qed

lemma bounded_run_join:
  assumes "bounded_run s p e" "bounded_run s i j" "p \<le> i" "i \<le> e"
  shows "\<forall>k \<in> {p..<j}. in_token_class (s ! k)"
  using assms unfolding bounded_run_def
  by (metis atLeastLessThan_iff not_le_imp_less order.strict_trans2 order_le_less_trans)

lemma clean_None:
  assumes "\<forall>i j. bounded_run s i j \<longrightarrow> i < p \<longrightarrow> j \<le> p" "match_at s p = None"
  shows "\<forall>i j. bounded_run s i j \<longrightarrow> i < Suc p \<longrightarrow> j \<le> Suc p"
proof (intro allI impI)
  fix i j assume b: "bounded_run s i j" and "i < Suc p"
  then consider "i < p" | "i = p" by linarith
  then show "j \<le> Suc p"
  proof cases
    case 1
    with assms(1) b have "j \<le> p" by blast
    then show ?thesis by simp
  next
    case 2
    with match_at_None[OF assms(2)] b show ?thesis by simp
  qed
qed

lemma clean_Some:
  assumes "\<forall>i j. bounded_run s i j \<longrightarrow> i < p \<longrightarrow> j \<le> p" "match_at s p = Some e"
  shows "\<forall>i j. bounded_run s i j \<longrightarrow> i < e \<longrightarrow> j \<le> e"
proof (intro allI impI)
  fix i j assume b: "bounded_run s i j" and "i < e"
  show "j \<le> e"
  proof (cases "i < p")
    case True
    with assms(1) b have "j \<le> p" by blast
    moreover have "p < e" using match_at_Some(1)[OF assms(2)] by (simp add: bounded_run_def)
    ultimately show ?thesis by simp
  next
    case False
    then have "p \<le> i" by simp
    from bounded_run_join[OF match_at_Some(1)[OF assms(2)] b this] \<open>i < e\<close>
    have "\<forall>k \<in> {p..<j}. in_token_class (s ! k)" by simp
    from match_at_Some(2)[OF assms(2) this] b show ?thesis by (simp add: bounded_run_def)
  qed
qed

lemma findall_spans_sound:
  "\<forall>a b. bounded_run s a b \<longrightarrow> a < p \<longrightarrow> b \<le> p \<Longrightarrow> (i, j) \<in> set (findall_spans s p) \<Longrightarrow> maximal_bounded_run s i j \<and> p \<le> i"
proof (induction s p rule: findall_spans.induct)
  case (1 s p)
  show ?case
  proof (cases "length s < p")
    case True
    with "1.prems" show ?thesis by (simp add: findall_spans.simps)
  next
    case False
    show ?thesis
    proof (cases "match_at s p")
      case None
      with False "1.prems" have "(i, j) \<in> set (findall_spans s (Suc p))"
        by (simp add: findall_spans.simps[of s p])
      from "1.IH"(1)[OF False None clean_None[OF "1.prems"(1) None] this]
      show ?thesis by simp
    next
      case (Some e)
      note M = match_at_Some[OF Some]
      from M(1) have pe: "p < e" by (simp add: bounded_run_def)
      from False Some "1.prems" consider "(i, j) = (p, e)" | "(i, j) \<in> set (findall_spans s e)"
        by (auto simp: findall_spans.simps[of s p])
      then show ?thesis
      proof cases
        case 1
        have "i' = p \<and> j' = e" if b: "bounded_run s i' j'" and le: "i' \<le> p" "e \<le> j'" for i' j'
        proof -
          have "i' = p"
          proof (rule ccontr)
            assume "i' \<noteq> p"
            with le have "i' < p" by simp
            with "1.prems"(1) b have "j' \<le> p" by blast
            with pe le show False by simp
          qed
          moreover from b have "j' \<le> e"
            using M(2)[of j'] \<open>i' = p\<close> by (simp add: bounded_run_def)
          ultimately show ?thesis using le by simp
        qed
        with M(1) 1 show ?thesis by (auto simp: maximal_bounded_run_def)
      next
        case 2
        from "1.IH"(2)[OF False Some clean_Some[OF "1.prems"(1) Some] 2] pe
        show ?thesis by simp
      qed
    qed
  qed
qed

lemma findall_spans_complete:
  "maximal_bounded_run s i j \<Longrightarrow> p \<le> i \<Longrightarrow> (i, j) \<in> set (findall_spans s p)"
proof (induction s p rule: findall_spans.induct)
  case (1 s p)
  from "1.prems"(1) have b: "bounded_run s i j" by (simp add: maximal_bounded_run_def)
  then have ij: "i < j" "j \<le> length s" by (simp_all add: bounded_run_def)
  with "1.prems"(2) have False: "\<not> length s < p" by simp
  show ?case
  proof (cases "match_at s p")
    case None
    from match_at_None[OF None] b "1.prems"(2) have "Suc p \<le> i"
      by (cases "p = i") auto
    from "1.IH"(1)[OF False None "1.prems"(1) this] False None show ?thesis
      by (simp add: findall_spans.simps[of s p])
  next
    case (Some e)
    note M = match_at_Some[OF Some]
    from M(1) have pe: "p < e" "e \<le> length s" by (simp_all add: bounded_run_def)
    show ?thesis
    proof (cases "e \<le> i")
      case True
      from "1.IH"(2)[OF False Some "1.prems"(1) True] False Some show ?thesis
        by (simp add: findall_spans.simps[of s p])
    next
      case lt: False
      then have "i \<le> e" by simp
      from bounded_run_join[OF M(1) b "1.prems"(2) this]
      have cl: "\<forall>k \<in> {p..<j}. in_token_class (s ! k)" .
      from M(2)[OF cl] b have "j \<le> e" by (simp add: bounded_run_def)
      from "1.prems"(1) M(1) "1.prems"(2) this pe have "p = i \<and> e = j"
        unfolding maximal_bounded_run_def by auto
      moreover from False Some have "(p, e) \<in> set (findall_spans s p)"
        by (simp add: findall_spans.simps[of s p])
      ultimately show ?thesis by simp
    qed
  qed
qed

lemma findall_spans_order:
  "spans_in_order (findall_spans s p) \<and> (\<forall>(i, j) \<in> set (findall_spans s p). p \<le> i \<and> i < j \<and> j \<le> length s)"
proof (induction s p rule: findall_spans.induct)
  case (1 s p)
  show ?case
  proof (cases "length s < p")
    case True
    then show ?thesis by (simp add: findall_spans.simps spans_in_order_def)
  next
    case False
    show ?thesis
    proof (cases "match_at s p")
      case None
      from "1.IH"(1)[OF False None] False None show ?thesis
        by (auto simp: findall_spans.simps[of s p])
    next
      case (Some e)
      from match_at_Some(1)[OF Some] have pe: "p < e" "e \<le> length s" by (simp_all add: bounded_run_def)
      from "1.IH"(2)[OF False Some] False Some pe show ?thesis
        by (auto simp: findall_spans.simps[of s p] spans_in_order_def)
    qed
  qed
qed

lemma token_spans_char: "set (findall_spans s 0) = {(i, j). maximal_bounded_run s i j}"
  using findall_spans_sound[of s 0] findall_spans_complete[of s _ _ 0] by auto


lemma slice_set:
  assumes "c \<in> set (slice s i j)" "j \<le> length s"
  shows "\<exists>k \<in> {i..<j}. c = s ! k"
proof -
  from assms(1) obtain n where n: "n < length (slice s i j)" "c = slice s i j ! n"
    by (auto simp: in_set_conv_nth)
  with assms(2) have "n < j - i" "i + n < length s" by (auto simp: slice_def)
  with n have "c = s ! (i + n)" by (simp add: slice_def)
  with \<open>n < j - i\<close> show ?thesis by force
qed

lemma findall_tokens_class:
  assumes "t \<in> set (findall s)"
  shows "t \<noteq> [] \<and> (\<forall>c \<in> set t. in_token_class c)"
proof -
  from assms obtain i j where ij: "(i, j) \<in> set (findall_spans s 0)" "t = slice s i j"
    by (auto simp: findall_def)
  with token_spans_char[of s] have "bounded_run s i j"
    by (auto simp: maximal_bounded_run_def)
  then have b: "i < j" "j \<le> length s" "\<forall>k \<in> {i..<j}. in_token_class (s ! k)"
    by (simp_all add: bounded_run_def)
  then have "t \<noteq> []" using ij(2) by (auto simp: slice_def)
  moreover have "in_token_class c" if "c \<in> set t" for c
    using slice_set[of c s i j] that ij(2) b by auto
  ultimately show ?thesis by blast
qed

lemma findall_spans_Nil: "findall_spans [] 0 = []"
  by (simp add: findall_spans.simps[of "[]" 0] findall_spans.simps[of "[]" "Suc 0"] match_at_def)

text \<open>
  C5. \<open>normalize_tokens\<close> lower-cases its input and returns, in left-to-right order, the
  slices of the lower-cased text at its maximal bounded runs: the stretches of characters
  of the class letters, digits, \<open>+\<close>, \<open>#\<close>, \<open>.\<close>, \<open>-\<close> that start and end at a word
  boundary and are contained in no longer such stretch. Every token is non-empty and made
  of class characters only, so other punctuation and whitespace are skipped. The empty
  string yields no token, and \<open>Python, SQL!! Django-2.0\<close> yields \<open>python\<close>, \<open>sql\<close>,
  \<open>django-2.0\<close>.
\<close>

theorem C5_tokenizer:
  "normalize_tokens text = map (\<lambda>(i, j). slice (lower text) i j) (findall_spans (lower text) 0)
   \<and> spans_in_order (findall_spans (lower text) 0)
   \<and> set (findall_spans (lower text) 0) = {(i, j). maximal_bounded_run (lower text) i j}
   \<and> (\<forall>t \<in> set (normalize_tokens text). t \<noteq> [] \<and> (\<forall>c \<in> set t. in_token_class c))
   \<and> normalize_tokens [] = []
   \<and> normalize_tokens ''Python, SQL!! Django-2.0'' = [''python'', ''sql'', ''django-2.0'']"
proof -
  have 1: "normalize_tokens text = map (\<lambda>(i, j). slice (lower text) i j) (findall_spans (lower text) 0)"
    by (cases "text = []") (simp_all add: normalize_tokens_def findall_def lower_def findall_spans_Nil)
  have 2: "spans_in_order (findall_spans (lower text) 0)"
    using findall_spans_order by blast
  have 3: "set (findall_spans (lower text) 0) = {(i, j). maximal_bounded_run (lower text) i j}"
    by (rule token_spans_char)
  have 4: "\<forall>t \<in> set (normalize_tokens text). t \<noteq> [] \<and> (\<forall>c \<in> set t. in_token_class c)"
    using findall_tokens_class by (auto simp: normalize_tokens_def)
  have 5: "normalize_tokens [] = []" by (simp add: normalize_tokens_def)
  have 6: "normalize_tokens ''Python, SQL!! Django-2.0'' = [''python'', ''sql'', ''django-2.0'']"
    by code_simp
  from 1 2 3 4 5 6 show ?thesis by blast
qed

theorem C5_tokenizer_witness:
  "normalize_tokens ''I use C++, C# and node.js.'' = [''i'', ''use'', ''c'', ''c'', ''and'', ''node.js'']
   \<and> maximal_bounded_run (lower ''I use C++, C# and node.js.'') 6 7
   \<and> \<not> maximal_bounded_run (lower ''I use C++, C# and node.js.'') 6 9
   \<and> normalize_tokens (''Caf'' @ [CHR 0xC9] @ '' au lait'') = [''au'', ''lait'']
   \<and> \<not> maximal_bounded_run (lower (''Caf'' @ [CHR 0xC9] @ '' au lait'')) 0 3"
proof -
  have a: "normalize_tokens ''I use C++, C# and node.js.'' = [''i'', ''use'', ''c'', ''c'', ''and'', ''node.js'']"
    by code_simp
  have b: "(6, 7) \<in> set (findall_spans (lower ''I use C++, C# and node.js.'') 0)"
    by code_simp
  have c: "(6, 9) \<notin> set (findall_spans (lower ''I use C++, C# and node.js.'') 0)"
    by code_simp
  have d: "normalize_tokens (''Caf'' @ [CHR 0xC9] @ '' au lait'') = [''au'', ''lait'']"
    by code_simp
  have e: "(0, 3) \<notin> set (findall_spans (lower (''Caf'' @ [CHR 0xC9] @ '' au lait'')) 0)"
    by code_simp
  show ?thesis
    using a b c d e C5_tokenizer[of "''I use C++, C# and node.js.''"]
      C5_tokenizer[of "''Caf'' @ [CHR 0xC9] @ '' au lait''"]
    by blast
qed

section \<open>The matched and missing lists\<close>

lemma ats_loop_filter:
  "ats_loop fz th toks rt K m x =
     (m @ filter (\<lambda>kw. kw \<noteq> [] \<and> matched_flag fz th toks rt (lower (strip kw))) K,
      x @ filter (\<lambda>kw. kw \<noteq> [] \<and> \<not> matched_flag fz th toks rt (lower (strip kw))) K)"
  by (induction K arbitrary: m x) (simp_all add: Let_def)

lemma compute_ats_score_lists:
  assumes "compute_ats_score fz K T th = (score, matched, missing)"
  shows "matched = filter (\<lambda>kw. kw \<noteq> [] \<and> matched_flag fz th (normalize_tokens T) (join '' '' (normalize_tokens T)) (lower (strip kw))) K"
    and "missing = filter (\<lambda>kw. kw \<noteq> [] \<and> \<not> matched_flag fz th (normalize_tokens T) (join '' '' (normalize_tokens T)) (lower (strip kw))) K"
  using assms by (auto simp: compute_ats_score_def ats_loop_filter Let_def)

lemma strip_Nil: "strip [] = []" by (simp add: strip_def)

text \<open>
  C1, as the code has it. The matched and the missing list hold keywords of \<open>K\<close> as they
  were supplied (not trimmed), each list in the input order; the two lists are disjoint;
  every keyword that is non-empty after trimming is in exactly one of them; every member
  of either list is a non-empty keyword of \<open>K\<close>, so the empty keyword is in neither.
  Nothing is said here about a keyword made of whitespace only.
\<close>

theorem C1_partition:
  assumes "compute_ats_score fz K T th = (score, matched, missing)"
  shows "matched = filter (\<lambda>kw. kw \<in> set matched) K
       \<and> missing = filter (\<lambda>kw. kw \<in> set missing) K
       \<and> set matched \<inter> set missing = {}
       \<and> {kw \<in> set K. strip kw \<noteq> []} \<subseteq> set matched \<union> set missing
       \<and> set matched \<union> set missing \<subseteq> {kw \<in> set K. kw \<noteq> []}"
proof -
  note L = compute_ats_score_lists[OF assms]
  let ?P = "\<lambda>kw. kw \<noteq> [] \<and> matched_flag fz th (normalize_tokens T) (join '' '' (normalize_tokens T)) (lower (strip kw))"
  let ?Q = "\<lambda>kw. kw \<noteq> [] \<and> \<not> matched_flag fz th (normalize_tokens T) (join '' '' (normalize_tokens T)) (lower (strip kw))"
  have m: "matched = filter ?P K" and x: "missing = filter ?Q K" using L by simp_all
  have "filter (\<lambda>kw. kw \<in> set (filter ?P K)) K = filter ?P K"
    by (rule filter_cong) auto
  moreover have "filter (\<lambda>kw. kw \<in> set (filter ?Q K)) K = filter ?Q K"
    by (rule filter_cong) auto
  moreover have "set (filter ?P K) \<inter> set (filter ?Q K) = {}" by auto
  moreover have "{kw \<in> set K. strip kw \<noteq> []} \<subseteq> set (filter ?P K) \<union> set (filter ?Q K)"
    using strip_Nil by auto
  moreover have "set (filter ?P K) \<union> set (filter ?Q K) \<subseteq> {kw \<in> set K. kw \<noteq> []}" by auto
  ultimately show ?thesis unfolding m x by simp
qed

theorem C1_partition_witness:
  "compute_ats_score None [''Python '', '''', ''AWS'', ''python''] ''Python dev'' 80
     = (50, [''Python '', ''python''], [''AWS''])
   \<and> [''Python '', ''python''] = filter (\<lambda>kw. kw \<in> set [''Python '', ''python'']) [''Python '', '''', ''AWS'', ''python'']
   \<and> [''AWS''] = filter (\<lambda>kw. kw \<in> set [''AWS'']) [''Python '', '''', ''AWS'', ''python'']
   \<and> set [''Python '', ''python''] \<inter> set [''AWS''] = {}
   \<and> {kw \<in> set [''Python '', '''', ''AWS'', ''python'']. strip kw \<noteq> []} \<subseteq> set [''Python '', ''python''] \<union> set [''AWS'']
   \<and> set [''Python '', ''python''] \<union> set [''AWS''] \<subseteq> {kw \<in> set [''Python '', '''', ''AWS'', ''python'']. kw \<noteq> []}"
proof -
  have h: "compute_ats_score None [''Python '', '''', ''AWS'', ''python''] ''Python dev'' 80
     = (50, [''Python '', ''python''], [''AWS''])" by code_simp
  show ?thesis using h C1_partition[OF h] by blast
qed

text \<open>
  The lists hold the keywords as supplied: for the single keyword \<open>Python\<close> followed by a
  space the union of the two lists is not the set of trimmed keywords.
\<close>

theorem C1_counterexample:
  "set (fst (snd (compute_ats_score None [''Python ''] ''python'' 80)))
     \<union> set (snd (snd (compute_ats_score None [''Python ''] ''python'' 80)))
   \<noteq> nonempty_trimmed [''Python '']"
  by code_simp

section \<open>The score\<close>

text \<open>
  The double arithmetic at work: \<open>23 / 80\<close> and its product with \<open>100.0\<close> are rounded to
  doubles, the product falls just below \<open>28.75\<close>, and \<open>round\<close> gives \<open>28.7\<close>, where
  the exact quotient would be a tie.
\<close>

lemma float_score_23_of_80:
  "float_mul 100 (float_div 23 80) < 115 / 4
   \<and> py_round1 (float_mul 100 (float_div 23 80)) = nearest_double (287 / 10)"
  by code_simp

lemma float_score_1_of_1: "py_round1 (float_mul 100 (float_div (Suc 0) (Suc 0))) = 100"
  by code_simp

lemma strip_spaces: "strip ''   '' = []"
  by code_simp

text \<open>
  C2. The loop skips an empty entry of the keyword list, and \<open>total\<close> still counts it:
  \<open>total = len(job_keywords)\<close>. For the list of \<open>Python\<close> and the empty string against
  the resume \<open>python\<close> one keyword remains after dropping empties and it is matched, so
  the score should be \<open>round(100.0 * 1 / 1, 1) = 100.0\<close>; the code divides by 2 and
  returns 50.0.
\<close>

theorem C2_empty_entry_counted:
  "compute_ats_score None [''Python'', ''''] ''python'' 80 = (50, [''Python''], [])
   \<and> spec_total [''Python'', ''''] = 1
   \<and> py_round1 (float_mul 100 (float_div (length [''Python'']) (spec_total [''Python'', '''']))) = 100"
  by code_simp

text \<open>
  C4. The loop skips a keyword only when it is empty before trimming. A keyword of three
  spaces passes that test, is trimmed to the empty string, and the empty string is a
  substring of every text: the keyword is reported as matched, here against an empty
  resume with a score of 100.
\<close>

theorem C4_whitespace_keyword_matched:
  "compute_ats_score fz [''   ''] [] th = (100, [''   ''], [])"
  by (simp add: compute_ats_score_def normalize_tokens_def matched_flag_def strip_spaces
      lower_def float_score_1_of_1)

section \<open>The three tiers of the matcher\<close>

lemma matched_flag_tier:
  "matched_flag fz th toks rt k = (match_tier fz th toks rt k \<noteq> NoMatch)"
  by (simp add: matched_flag_def match_tier_def split: option.splits)

lemma sublist_join:
  "t \<in> set toks \<Longrightarrow> sublist k t \<Longrightarrow> sublist k (join sep toks)"
proof (induction sep toks rule: join.induct)
  case (1 sep)
  then show ?case by simp
next
  case (2 sep x)
  then show ?case by simp
next
  case (3 sep x y ys)
  show ?case
  proof (cases "t = x")
    case True
    with "3.prems"(2) obtain ps ss where "x = ps @ k @ ss" by (auto simp: sublist_def)
    then have "join sep (x # y # ys) = ps @ k @ (ss @ sep @ join sep (y # ys))" by simp
    then show ?thesis unfolding sublist_def by blast
  next
    case False
    with "3.prems"(1) have "t \<in> set (y # ys)" by simp
    from "3.IH"[OF this "3.prems"(2)] obtain ps ss where "join sep (y # ys) = ps @ k @ ss"
      by (auto simp: sublist_def)
    then have "join sep (x # y # ys) = (x @ sep @ ps) @ k @ ss" by simp
    then show ?thesis unfolding sublist_def by blast
  qed
qed

text \<open>
  C3. For a non-empty keyword of the list, with \<open>k\<close> its trimmed lower-cased form, the
  keyword lands in the matched list exactly when one of the three tiers decides it, and in
  the missing list otherwise. The tiers are tried in this order and the first that succeeds
  decides: \<open>k\<close> is one of the tokens (whatever the fuzzy matcher is, also when it is
  absent); else \<open>k\<close> is a substring of the space-joined tokens, which is the case whenever
  \<open>k\<close> is a substring of one token, as \<open>java\<close> is of \<open>javascript\<close>; else the fuzzy
  matcher is present, returns a ratio, and the ratio reaches the threshold. Without a fuzzy
  matcher, or when its call raises, the third tier is no match.
\<close>

theorem C3_matcher_tiers:
  assumes "compute_ats_score fz K T th = (score, matched, missing)" and "kw \<in> set K" and "kw \<noteq> []"
    and "toks = normalize_tokens T" and "rt = join '' '' toks" and "k = lower (strip kw)"
  shows "(kw \<in> set matched \<longleftrightarrow> match_tier fz th toks rt k \<noteq> NoMatch)
       \<and> (kw \<in> set missing \<longleftrightarrow> match_tier fz th toks rt k = NoMatch)
       \<and> (k \<in> set toks \<longrightarrow> match_tier fz th toks rt k = Exact)
       \<and> (k \<notin> set toks \<and> sublist k rt \<longrightarrow> match_tier fz th toks rt k = Substring)
       \<and> (k \<notin> set toks \<and> (\<exists>t \<in> set toks. sublist k t) \<longrightarrow> match_tier fz th toks rt k = Substring)
       \<and> (k \<notin> set toks \<and> \<not> sublist k rt \<longrightarrow>
            match_tier fz th toks rt k =
              (case fz of
                 None \<Rightarrow> NoMatch
               | Some partial_ratio \<Rightarrow>
                   (case partial_ratio k rt of
                      None \<Rightarrow> NoMatch
                    | Some r \<Rightarrow> if th \<le> r then Fuzzy else NoMatch)))"
proof -
  note L = compute_ats_score_lists[OF assms(1)]
  have m: "kw \<in> set matched \<longleftrightarrow> match_tier fz th toks rt k \<noteq> NoMatch"
    unfolding L(1) using assms(2-6) by (simp add: matched_flag_tier)
  have x: "kw \<in> set missing \<longleftrightarrow> match_tier fz th toks rt k = NoMatch"
    unfolding L(2) using assms(2-6) by (simp add: matched_flag_tier)
  have e: "k \<in> set toks \<longrightarrow> match_tier fz th toks rt k = Exact"
    by (simp add: match_tier_def)
  have s: "k \<notin> set toks \<and> sublist k rt \<longrightarrow> match_tier fz th toks rt k = Substring"
    by (simp add: match_tier_def)
  have s': "k \<notin> set toks \<and> (\<exists>t \<in> set toks. sublist k t) \<longrightarrow> match_tier fz th toks rt k = Substring"
    using sublist_join[of _ toks k "'' ''"] assms(5) by (auto simp: match_tier_def)
  have f: "k \<notin> set toks \<and> \<not> sublist k rt \<longrightarrow>
            match_tier fz th toks rt k =
              (case fz of
                 None \<Rightarrow> NoMatch
               | Some partial_ratio \<Rightarrow>
                   (case partial_ratio k rt of
                      None \<Rightarrow> NoMatch
                    | Some r \<Rightarrow> if th \<le> r then Fuzzy else NoMatch))"
    by (simp add: match_tier_def)
  from m x e s s' f show ?thesis by blast
qed

theorem C3_matcher_tiers_witness:
  "compute_ats_score None [''SQL'', ''Java'', ''Rust''] ''Expert in sql and JavaScript'' default_fuzzy_threshold
     = (nearest_double (667 / 10), [''SQL'', ''Java''], [''Rust''])
   \<and> match_tier None default_fuzzy_threshold (normalize_tokens ''Expert in sql and JavaScript'')
        (join '' '' (normalize_tokens ''Expert in sql and JavaScript'')) (lower (strip ''Java'')) = Substring
   \<and> lower (strip ''Java'') \<notin> set (normalize_tokens ''Expert in sql and JavaScript'')"
proof -
  have h: "compute_ats_score None [''SQL'', ''Java'', ''Rust''] ''Expert in sql and JavaScript'' default_fuzzy_threshold
     = (nearest_double (667 / 10), [''SQL'', ''Java''], [''Rust''])" by code_simp
  have n: "lower (strip ''Java'') \<notin> set (normalize_tokens ''Expert in sql and JavaScript'')"
    by code_simp
  have j: "''javascript'' \<in> set (normalize_tokens ''Expert in sql and JavaScript'')"
    by code_simp
  have sj: "sublist (lower (strip ''Java'')) ''javascript''" by code_simp
  have kw: "''Java'' \<in> set [''SQL'', ''Java'', ''Rust'']" "''Java'' \<noteq> []" by simp_all
  from C3_matcher_tiers[OF h kw refl refl refl] n j sj h show ?thesis by blast
qed

section \<open>Text of a structured resume\<close>

lemma append_entries_map:
  "append_entries keys es parts = parts @ map (entry_line keys) es"
  by (induction es arbitrary: parts) (simp_all add: entry_line_def)

text \<open>
  C8. \<open>resume_json_to_text\<close> joins with newlines the non-empty parts among, in this
  order: full name, headline, location, summary; for each education entry its school,
  degree, details and duration joined by spaces; for each experience entry its title,
  company, description and duration joined by spaces; for each project entry its title,
  tech, description and duration joined by spaces; the skills joined by spaces; the
  achievements. A missing key counts as the empty string: the resume with no key at all
  gives the empty text.
\<close>

theorem C8_resume_json_to_text:
  "resume_json_to_text resume = join newline (filter (\<lambda>p. p \<noteq> []) (spec_resume_parts resume))
   \<and> resume_json_to_text \<lparr>personal = None, summary = None, education = None, experience = None,
        projects = None, skills = None, achievements = None\<rparr> = []"
proof -
  have "resume_json_to_text resume = join newline (filter (\<lambda>p. p \<noteq> []) (spec_resume_parts resume))"
    by (simp add: resume_json_to_text_def spec_resume_parts_def append_entries_map Let_def)
  moreover have "resume_json_to_text \<lparr>personal = None, summary = None, education = None,
        experience = None, projects = None, skills = None, achievements = None\<rparr> = []"
    by (simp add: resume_json_to_text_def get_or_def)
  ultimately show ?thesis by blast
qed

theorem C8_resume_json_to_text_witness:
  "resume_json_to_text \<lparr>personal = Some [''full_name'' \<mapsto> ''Ada Lovelace'', ''location'' \<mapsto> ''London''],
        summary = None,
        education = Some [[''school'' \<mapsto> ''MIT'', ''duration'' \<mapsto> ''2019'']],
        experience = Some [Map.empty],
        projects = None, skills = Some [''Python'', ''SQL''], achievements = Some ''''\<rparr>
   = ''Ada Lovelace'' @ newline @ ''London'' @ newline @ ''MIT   2019'' @ newline @ ''   '' @ newline @ ''Python SQL''"
  using C8_resume_json_to_text[of "\<lparr>personal = Some [''full_name'' \<mapsto> ''Ada Lovelace'', ''location'' \<mapsto> ''London''],
        summary = None,
        education = Some [[''school'' \<mapsto> ''MIT'', ''duration'' \<mapsto> ''2019'']],
        experience = Some [Map.empty],
        projects = None, skills = Some [''Python'', ''SQL''], achievements = Some ''''\<rparr>"]
  by (simp add: spec_resume_parts_def entry_line_def get_or_def newline_def)

section \<open>Keywords derived from the job description\<close>

lemma findall_lower_normalize: "findall (lower d) = normalize_tokens d"
  by (simp add: normalize_tokens_def lower_def findall_def findall_spans_Nil)

text \<open>
  C9. When the job has no required skills, the keyword list is made from the tokens of the
  description (the tokenizer's own tokens) that are longer than 2 characters: it has no
  duplicates, at most 40 entries, only such tokens, and all of them when there are at most
  40 different ones. The code sorts the different tokens before it cuts the list at 40.
\<close>

theorem C9_fallback_keywords:
  assumes "get_or (job_required_skills j) [] = []"
    and "cand = {t \<in> set (normalize_tokens (job_description j)). 2 < length t}"
  shows "derive_job_keywords j = take 40 (sorted_list_of_set cand)
       \<and> distinct (derive_job_keywords j)
       \<and> sorted (derive_job_keywords j)
       \<and> length (derive_job_keywords j) \<le> 40
       \<and> set (derive_job_keywords j) \<subseteq> cand
       \<and> (card cand \<le> 40 \<longrightarrow> set (derive_job_keywords j) = cand)"
proof -
  have fin: "finite cand" using assms(2) by simp
  have c: "set (filter (\<lambda>t. 2 < length t) (normalize_tokens (job_description j))) = cand"
    using assms(2) by auto
  have d: "derive_job_keywords j = take 40 (sorted_list_of_set cand)"
    using assms(1) c by (simp add: derive_job_keywords_def findall_lower_normalize Let_def)
  have 1: "distinct (take 40 (sorted_list_of_set cand))"
    by (rule distinct_take) simp
  have 2: "sorted (take 40 (sorted_list_of_set cand))"
    by (rule sorted_wrt_take) simp
  have 3: "length (take 40 (sorted_list_of_set cand)) \<le> 40" by simp
  have 4: "set (take 40 (sorted_list_of_set cand)) \<subseteq> cand"
    using set_take_subset[of 40 "sorted_list_of_set cand"] fin by simp
  have 5: "card cand \<le> 40 \<longrightarrow> set (take 40 (sorted_list_of_set cand)) = cand"
  proof
    assume "card cand \<le> 40"
    then have "length (sorted_list_of_set cand) \<le> 40" by simp
    then have "take 40 (sorted_list_of_set cand) = sorted_list_of_set cand" by simp
    with fin show "set (take 40 (sorted_list_of_set cand)) = cand" by simp
  qed
  from d 1 2 3 4 5 show ?thesis by simp
qed

theorem C9_fallback_keywords_witness:
  "derive_job_keywords \<lparr>job_required_skills = Some [], job_description = ''We need Python, SQL and python; Go is a plus.''\<rparr>
     = [''and'', ''need'', ''plus'', ''python'', ''sql'']
   \<and> set [''and'', ''need'', ''plus'', ''python'', ''sql'']
       = {t \<in> set (normalize_tokens ''We need Python, SQL and python; Go is a plus.''). 2 < length t}"
proof -
  let ?j = "\<lparr>job_required_skills = Some [], job_description = ''We need Python, SQL and python; Go is a plus.''\<rparr>"
  have h: "get_or (job_required_skills ?j) [] = []" by (simp add: get_or_def)
  have v: "derive_job_keywords ?j = [''and'', ''need'', ''plus'', ''python'', ''sql'']" by code_simp
  have n: "normalize_tokens ''We need Python, SQL and python; Go is a plus.''
             = [''we'', ''need'', ''python'', ''sql'', ''and'', ''python'', ''go'', ''is'', ''a'', ''plus'']"
    by code_simp
  have k: "card {t \<in> set (normalize_tokens ''We need Python, SQL and python; Go is a plus.''). 2 < length t} \<le> 40"
  proof -
    have "card {t \<in> set (normalize_tokens ''We need Python, SQL and python; Go is a plus.''). 2 < length t}
            \<le> card (set (normalize_tokens ''We need Python, SQL and python; Go is a plus.''))"
      by (rule card_mono) auto
    also have "\<dots> \<le> length (normalize_tokens ''We need Python, SQL and python; Go is a plus.'')"
      by (rule card_length)
    also have "\<dots> \<le> 40" unfolding n by simp
    finally show ?thesis .
  qed
  from C9_fallback_keywords[OF h refl] k v show ?thesis by simp
qed

section \<open>Extraction from an upload: the temporary copy and the stream\<close>

lemma fold_max_ge: "a \<le> fold max xs (a::nat)"
  by (induction xs arbitrary: a) (auto intro: order_trans[OF max.cobounded2])

lemma fold_max_mem: "x \<in> set xs \<Longrightarrow> x \<le> fold max xs (a::nat)"
proof (induction xs arbitrary: a)
  case Nil
  then show ?case by simp
next
  case (Cons y ys)
  show ?case
  proof (cases "x = y")
    case True
    have "y \<le> max y a" by simp
    also have "\<dots> \<le> fold max ys (max y a)" by (rule fold_max_ge)
    finally show ?thesis using True by simp
  next
    case False
    with Cons.prems have "x \<in> set ys" by simp
    from Cons.IH[OF this] show ?thesis by simp
  qed
qed

lemma fresh_path_notin: "fresh_path fs \<notin> fst ` set (fs_files fs)"
proof
  assume "fresh_path fs \<in> fst ` set (fs_files fs)"
  then have "fresh_path fs \<in> set (map fst (fs_files fs))" by simp
  from fold_max_mem[OF this, of 0] show False by (simp add: fresh_path_def)
qed


lemma map_fresh:
  assumes "p \<notin> fst ` set xs"
  shows "map (\<lambda>(q, c). if q = p then (q, c @ d) else (q, c)) xs = xs"
  using assms by (induction xs) auto

lemma extract_text_from_docx_Path:
  "extract_text_from_docx L (Path p) fs = (docx_parse L p fs, Path p, fs)"
  by (simp add: extract_text_from_docx_def)

text \<open>The three ways through the body of \<open>extract_text\<close>.\<close>

lemma extract_text_unreadable:
  assumes "\<not> upload_readable f"
  shows "extract_text L f fs = (Inl OSError, seek_quietly f, fs)"
  using assms by (simp add: extract_text_def upload_read_def Let_def)

lemma extract_text_write_fails:
  assumes "upload_readable f" "fs_write_fails fs"
  shows "extract_text L f fs =
           (Inl OSError,
            seek_quietly (f\<lparr>upload_pos := max (upload_pos f) (length (upload_data f))\<rparr>),
            fs\<lparr>fs_files := (fresh_path fs, []) # fs_files fs\<rparr>)"
  using assms
  by (simp add: extract_text_def upload_read_def named_temporary_file_def file_write_def Let_def)

lemma extract_text_written:
  assumes "upload_readable f" "\<not> fs_write_fails fs"
  shows "\<exists>r. extract_text L f fs =
           (r,
            seek_quietly (f\<lparr>upload_pos := max (upload_pos f) (length (upload_data f))\<rparr>),
            unlink_quietly (fresh_path fs)
              (fs\<lparr>fs_files := (fresh_path fs, drop (upload_pos f) (upload_data f)) # fs_files fs\<rparr>))"
  using assms fresh_path_notin[of fs]
  by (auto simp: extract_text_def upload_read_def named_temporary_file_def file_write_def Let_def
        extract_text_from_docx_Path map_fresh split: option.splits bool.splits prod.splits)

lemma seek_quietly_fields:
  "upload_data (seek_quietly f) = upload_data f"
  "upload_name (seek_quietly f) = upload_name f"
  "upload_readable (seek_quietly f) = upload_readable f"
  "upload_seekable (seek_quietly f) = upload_seekable f"
  "upload_seekable f \<Longrightarrow> upload_pos (seek_quietly f) = 0"
  by (simp_all add: seek_quietly_def upload_seek_def)


lemma extract_text_upload_after:
  assumes "extract_text L f fs = (result, f', fs')"
  shows "upload_data f' = upload_data f \<and> upload_name f' = upload_name f
       \<and> upload_readable f' = upload_readable f \<and> upload_seekable f' = upload_seekable f
       \<and> (upload_seekable f \<longrightarrow> upload_pos f' = 0)"
proof (cases "upload_readable f")
  case False
  from extract_text_unreadable[OF False, of L fs] assms have "f' = seek_quietly f" by simp
  then show ?thesis by (simp add: seek_quietly_fields)
next
  case True
  let ?g = "f\<lparr>upload_pos := max (upload_pos f) (length (upload_data f))\<rparr>"
  have "f' = seek_quietly ?g"
  proof (cases "fs_write_fails fs")
    case wf: True
    from extract_text_write_fails[OF True wf, of L] assms show ?thesis by simp
  next
    case wok: False
    from extract_text_written[OF True wok, of L] assms show ?thesis by auto
  qed
  then show ?thesis by (simp add: seek_quietly_fields)
qed






text \<open>
  C6. With python-docx installed and an upload named \<open>cv.docx\<close> whose bytes the parser
  rejects, \<open>extract_text\<close> raises the parser's exception: the DOCX branch has no
  \<open>except\<close> clause. The PDF branch of the same function, on the same bytes under the
  name \<open>cv.pdf\<close> and with a PDF parser that raises, returns the empty string.
\<close>

theorem C6_docx_parse_error_raises:
  "fst (extract_text \<lparr>pdf_extract_text = Some (\<lambda>b. Inl ParserError),
                      docx_paragraphs = Some (\<lambda>b. Inl ParserError)\<rparr>
        \<lparr>upload_name = Some ''cv.docx'', upload_data = ''corrupt'', upload_pos = 0,
          upload_readable = True, upload_seekable = True\<rparr>
        \<lparr>fs_files = [], fs_write_fails = False, fs_unlink_denied = False\<rparr>) = Inl ParserError
   \<and> fst (extract_text \<lparr>pdf_extract_text = Some (\<lambda>b. Inl ParserError),
                      docx_paragraphs = Some (\<lambda>b. Inl ParserError)\<rparr>
        \<lparr>upload_name = Some ''cv.pdf'', upload_data = ''corrupt'', upload_pos = 0,
          upload_readable = True, upload_seekable = True\<rparr>
        \<lparr>fs_files = [], fs_write_fails = False, fs_unlink_denied = False\<rparr>) = Inr []"
  by code_simp

section \<open>The extraction boundary of the application view\<close>

text \<open>
  C10. For an uploaded file the view scores the job's keywords against the text that
  \<open>extract_text\<close> returned, and against the empty text when \<open>extract_text\<close> raised,
  whatever the exception; it then rewinds the upload, ignoring a failing \<open>seek\<close>, so that
  the upload keeps its content and is at position 0 when it supports \<open>seek\<close>. The scoring
  call is made in both cases.
\<close>

theorem C10_extraction_boundary:
  assumes "apply_score fz L j (UploadedFile f) fs = (res, choice', fs')"
    and "extract_text L f fs = (r, f1, fs1)"
  shows "res = compute_ats_score fz (derive_job_keywords j)
                 (case r of Inl e \<Rightarrow> [] | Inr t \<Rightarrow> t) default_fuzzy_threshold
       \<and> ((\<exists>e. r = Inl e) \<longrightarrow>
            res = compute_ats_score fz (derive_job_keywords j) [] default_fuzzy_threshold)
       \<and> choice' = UploadedFile (seek_quietly f1)
       \<and> upload_data (seek_quietly f1) = upload_data f
       \<and> (upload_seekable f \<longrightarrow> upload_pos (seek_quietly f1) = 0)
       \<and> fs' = fs1"
proof -
  from assms have a: "res = compute_ats_score fz (derive_job_keywords j)
                 (case r of Inl e \<Rightarrow> [] | Inr t \<Rightarrow> t) default_fuzzy_threshold"
    and b: "choice' = UploadedFile (seek_quietly f1)" and c: "fs' = fs1"
    by (auto simp: apply_score_def apply_resume_text_def Let_def)
  from a have a': "(\<exists>e. r = Inl e) \<longrightarrow>
            res = compute_ats_score fz (derive_job_keywords j) [] default_fuzzy_threshold"
    by auto
  note U = extract_text_upload_after[OF assms(2)]
  show ?thesis using a a' b c U by (simp add: seek_quietly_fields)
qed

theorem C10_extraction_boundary_witness:
  "apply_score None \<lparr>pdf_extract_text = None, docx_paragraphs = Some (\<lambda>b. Inl ParserError)\<rparr>
        \<lparr>job_required_skills = Some [''Python''], job_description = ''Backend developer''\<rparr>
        (UploadedFile \<lparr>upload_name = Some ''cv.docx'', upload_data = ''corrupt'', upload_pos = 0,
          upload_readable = True, upload_seekable = True\<rparr>)
        \<lparr>fs_files = [], fs_write_fails = False, fs_unlink_denied = False\<rparr>
     = ((0, [], [''Python'']),
        UploadedFile \<lparr>upload_name = Some ''cv.docx'', upload_data = ''corrupt'', upload_pos = 0,
          upload_readable = True, upload_seekable = True\<rparr>,
        \<lparr>fs_files = [], fs_write_fails = False, fs_unlink_denied = False\<rparr>)
   \<and> compute_ats_score None [''Python''] [] default_fuzzy_threshold = (0, [], [''Python''])"
proof -
  have e: "extract_text \<lparr>pdf_extract_text = None, docx_paragraphs = Some (\<lambda>b. Inl ParserError)\<rparr>
        \<lparr>upload_name = Some ''cv.docx'', upload_data = ''corrupt'', upload_pos = 0,
          upload_readable = True, upload_seekable = True\<rparr>
        \<lparr>fs_files = [], fs_write_fails = False, fs_unlink_denied = False\<rparr>
     = (Inl ParserError,
        \<lparr>upload_name = Some ''cv.docx'', upload_data = ''corrupt'', upload_pos = 0,
          upload_readable = True, upload_seekable = True\<rparr>,
        \<lparr>fs_files = [], fs_write_fails = False, fs_unlink_denied = False\<rparr>)"
    by code_simp
  have k: "derive_job_keywords \<lparr>job_required_skills = Some [''Python''], job_description = ''Backend developer''\<rparr>
             = [''Python'']"
    by code_simp
  have c: "compute_ats_score None [''Python''] [] default_fuzzy_threshold = (0, [], [''Python''])"
    by code_simp
  have h: "apply_score None \<lparr>pdf_extract_text = None, docx_paragraphs = Some (\<lambda>b. Inl ParserError)\<rparr>
        \<lparr>job_required_skills = Some [''Python''], job_description = ''Backend developer''\<rparr>
        (UploadedFile \<lparr>upload_name = Some ''cv.docx'', upload_data = ''corrupt'', upload_pos = 0,
          upload_readable = True, upload_seekable = True\<rparr>)
        \<lparr>fs_files = [], fs_write_fails = False, fs_unlink_denied = False\<rparr>
     = ((0, [], [''Python'']),
        UploadedFile \<lparr>upload_name = Some ''cv.docx'', upload_data = ''corrupt'', upload_pos = 0,
          upload_readable = True, upload_seekable = True\<rparr>,
        \<lparr>fs_files = [], fs_write_fails = False, fs_unlink_denied = False\<rparr>)"
    by (simp add: apply_score_def apply_resume_text_def e k c seek_quietly_def upload_seek_def)
  from C10_extraction_boundary[OF h e] k h c show ?thesis by simp
qed

end
